theory Spec2Isabelle
  imports Main "HOL-Library.Word"
begin

section \<open>JavaScript strings\<close>

text \<open>
  A JavaScript string is a sequence of UTF-16 code units. String literals of the script
  are ASCII and are written with \<open>ustr\<close>.
\<close>

type_synonym ustring = "16 word list"

definition ustr :: "string \<Rightarrow> ustring" where
  "ustr s = map of_char s"

text \<open>
  \<open>String.prototype.trim\<close> removes, at both ends, the code units that ECMAScript calls
  WhiteSpace (TAB, VT, FF, SP, NBSP, ZWNBSP and the Unicode space separators) or
  LineTerminator (LF, CR, LS, PS).
\<close>

definition isWhiteSpace :: "16 word \<Rightarrow> bool" where
  "isWhiteSpace c \<longleftrightarrow>
     c = 0x0009 \<or> c = 0x000A \<or> c = 0x000B \<or> c = 0x000C \<or> c = 0x000D \<or> c = 0x0020 \<or>
     c = 0x00A0 \<or> c = 0x1680 \<or> (0x2000 \<le> c \<and> c \<le> 0x200A) \<or> c = 0x2028 \<or>
     c = 0x2029 \<or> c = 0x202F \<or> c = 0x205F \<or> c = 0x3000 \<or> c = 0xFEFF"

definition trim :: "ustring \<Rightarrow> ustring" where
  "trim s = rev (dropWhile isWhiteSpace (rev (dropWhile isWhiteSpace s)))"

definition toUpperAscii :: "16 word \<Rightarrow> 16 word" where
  "toUpperAscii c = (if 0x61 \<le> c \<and> c \<le> 0x7A then c - 0x20 else c)"

definition toLowerAscii :: "16 word \<Rightarrow> 16 word" where
  "toLowerAscii c = (if 0x41 \<le> c \<and> c \<le> 0x5A then c + 0x20 else c)"

text \<open>
  Matching one ASCII pattern character under the \<open>i\<close> flag (without the \<open>u\<close> flag):
  the input code unit and the pattern character are compared after canonicalisation to
  upper case, and canonicalisation never sends a code unit from outside ASCII into ASCII.
  So only ASCII code units can match an ASCII pattern character.
\<close>

definition matchesIgnoreCase :: "16 word \<Rightarrow> char \<Rightarrow> bool" where
  "matchesIgnoreCase x c \<longleftrightarrow> x < 0x80 \<and> toUpperAscii x = toUpperAscii (of_char c)"

text \<open>
  The regular expressions the script needs: a sequence of literal characters and
  optional characters (\<open>c?\<close>, greedy, with backtracking), anchored at the start of the
  input by \<open>^\<close> and open at the end.
\<close>

datatype atom = Lit char | Opt char

fun rmatch :: "atom list \<Rightarrow> ustring \<Rightarrow> bool" where
  "rmatch [] s = True"
| "rmatch (Lit c # p) [] = False"
| "rmatch (Lit c # p) (x # s) = (matchesIgnoreCase x c \<and> rmatch p s)"
| "rmatch (Opt c # p) [] = rmatch p []"
| "rmatch (Opt c # p) (x # s) = ((matchesIgnoreCase x c \<and> rmatch p s) \<or> rmatch p (x # s))"

text \<open>The pattern \<^verbatim>\<open>/^https?:\/\//i\<close> of line 22.\<close>

definition schemeRegex :: "atom list" where
  "schemeRegex = [Lit CHR ''h'', Lit CHR ''t'', Lit CHR ''t'', Lit CHR ''p'', Opt CHR ''s'',
                  Lit CHR '':'', Lit CHR ''/'', Lit CHR ''/'']"

definition regex_test :: "atom list \<Rightarrow> ustring \<Rightarrow> bool" where
  "regex_test re s = rmatch re s"

section \<open>The URL loader\<close>

text \<open>
  A parsed CSV row is an object from column names to cell strings; \<open>row.url\<close> is
  \<open>undefined\<close> when the row has no such column.
\<close>

type_synonym row = "ustring \<rightharpoonup> ustring"

text \<open>
  The handler of the \<open>data\<close> event (lines 18 to 27). \<open>if (row.url)\<close> is false for
  \<open>undefined\<close> and for the empty string, true for every other string.
\<close>

definition on_data :: "ustring list \<Rightarrow> row \<Rightarrow> ustring list" where
  "on_data urls row =
     (case row (ustr ''url'') of
        None \<Rightarrow> urls
      | Some u \<Rightarrow>
          if u = [] then urls
          else
            let formattedUrl = trim u;
                formattedUrl =
                  (if \<not> regex_test schemeRegex formattedUrl
                   then ustr ''http://'' @ formattedUrl
                   else formattedUrl)
            in urls @ [formattedUrl])"

text \<open>The parser delivers the rows in file order, one \<open>data\<close> event each.\<close>

definition load_urls :: "row list \<Rightarrow> ustring list" where
  "load_urls rows = foldl on_data [] rows"

subsection \<open>The loader as the specification words it\<close>

definition startsWithIgnoreCase :: "string \<Rightarrow> ustring \<Rightarrow> bool" where
  "startsWithIgnoreCase p s \<longleftrightarrow>
     length p \<le> length s \<and> map toLowerAscii (take (length p) s) = ustr p"

definition hasScheme :: "ustring \<Rightarrow> bool" where
  "hasScheme s \<longleftrightarrow> startsWithIgnoreCase ''http://'' s \<or> startsWithIgnoreCase ''https://'' s"

definition normalized :: "ustring \<Rightarrow> ustring" where
  "normalized u = (if hasScheme (trim u) then trim u else ustr ''http://'' @ trim u)"

definition loaded_of_row :: "row \<Rightarrow> ustring list" where
  "loaded_of_row r =
     (case r (ustr ''url'') of
        None \<Rightarrow> []
      | Some u \<Rightarrow> if u = [] then [] else [normalized u])"

section \<open>Results, errors and the trace of a run\<close>

text \<open>
  JavaScript numbers are left abstract: the script only writes the literals \<open>0\<close> and
  \<open>100\<close> and one multiplication, so any type with these serves. A variable declared by
  \<open>let score;\<close> is \<open>undefined\<close> (\<open>None\<close>) until it is assigned.

  The object \<open>{ score, metaTitle, metaDescription }\<close> is what the audit runner returns
  and what the orchestrator keeps in its three variables of the same names; the row
  written to the output adds the \<open>url\<close>.
\<close>

record 'n audit =
  score :: "'n option"
  metaTitle :: ustring
  metaDescription :: ustring

record 'n result_row = "'n audit" +
  url :: ustring

text \<open>A thrown \<open>Error\<close> object; the script only reads its \<open>message\<close>.\<close>

datatype thrown = Error (message: ustring)

text \<open>What one call of the audit runner does with the browser, in order.\<close>

datatype browser_event =
    Launch
  | NewPage
  | LogNavigating ustring
  | Goto ustring nat
  | LogExtracting ustring
  | Title
  | EvalDescription
  | LogRunning ustring
  | ImportLighthouse
  | StartLighthouse ustring
  | StartTimer nat
  | LogProcessingError ustring ustring
  | Close

text \<open>What the script does, in order: log lines, pauses, runner calls, rows written.\<close>

datatype 'n event =
    LogCsvProcessed
  | CreateOutput
  | LogProcessing ustring
  | Sleep nat
  | LogAttempt nat ustring
  | RunLighthouseAudit ustring "browser_event list"
  | LogSuccess ustring "'n option"
  | LogAttemptFailed nat ustring ustring
  | LogSkipping ustring
  | Write "'n result_row"
  | EndOutput
  | LogCompleted

text \<open>
  An audit runner, as the orchestrator sees it: called with a URL in a state of the
  world, it reports what it did with the browser, throws or returns, and leaves the
  world in a new state.
\<close>

type_synonym ('w, 'n) runner =
  "ustring \<Rightarrow> 'w \<Rightarrow> (browser_event list \<times> (thrown + 'n audit)) \<times> 'w"

section \<open>The orchestrator\<close>

definition maxRetries :: nat where
  "maxRetries = 3"

definition auditTimeout :: nat where
  "auditTimeout = 60000"

text \<open>\<open>a || b\<close> on strings: the empty string is the only falsy string.\<close>

definition js_or :: "ustring \<Rightarrow> ustring \<Rightarrow> ustring" where
  "js_or a b = (if a = [] then b else a)"

text \<open>
  The retry loop of lines 46 to 64, entered at \<open>attempt\<close> with the three variables
  \<open>vars\<close>. It returns what it did, the variables, and the state of the world.
\<close>

function retry_loop ::
  "('w, 'n::zero) runner \<Rightarrow> ustring \<Rightarrow> nat \<Rightarrow> 'n audit \<Rightarrow> 'w \<Rightarrow> ('n event list \<times> 'n audit) \<times> 'w"
where
  "retry_loop run u attempt vars w =
     (if attempt \<le> maxRetries then
        (case run u w of
           ((bev, Inr res), w') \<Rightarrow>
             (([LogAttempt attempt u, RunLighthouseAudit u bev, LogSuccess u (score res)],
               res), w')
         | ((bev, Inl error), w') \<Rightarrow>
             if attempt = maxRetries \<or>
                (attempt = 2 \<and> message error = ustr ''Lighthouse audit timed out'')
             then
               (([LogAttempt attempt u, RunLighthouseAudit u bev,
                  LogAttemptFailed attempt u (message error), LogSkipping u],
                 \<lparr>score = Some 0,
                  metaTitle = js_or (metaTitle vars) (ustr ''N/A''),
                  metaDescription = js_or (metaDescription vars) (ustr ''N/A'')\<rparr>), w')
             else
               (case retry_loop run u (attempt + 1) vars w' of
                  ((evs, vars'), w'') \<Rightarrow>
                    (([LogAttempt attempt u, RunLighthouseAudit u bev,
                       LogAttemptFailed attempt u (message error), Sleep 3000] @ evs,
                      vars'), w'')))
      else (([], vars), w))"
  by pat_completeness auto
termination
  by (relation "measure (\<lambda>(run, u, attempt, vars, w). Suc maxRetries - attempt)") auto

declare retry_loop.simps [simp del]

text \<open>One iteration of the loop over the URLs (lines 36 to 67).\<close>

definition process_url :: "('w, 'n::zero) runner \<Rightarrow> ustring \<Rightarrow> 'w \<Rightarrow> 'n event list \<times> 'w" where
  "process_url run u w =
     (case retry_loop run u 1 \<lparr>score = None, metaTitle = [], metaDescription = []\<rparr> w of
        ((evs, vars), w') \<Rightarrow>
          ([LogProcessing u, Sleep 3000] @ evs @
           [Write \<lparr>score = score vars, metaTitle = metaTitle vars,
                   metaDescription = metaDescription vars, url = u\<rparr>], w'))"

fun for_urls :: "('w, 'n::zero) runner \<Rightarrow> ustring list \<Rightarrow> 'w \<Rightarrow> 'n event list \<times> 'w" where
  "for_urls run [] w = ([], w)"
| "for_urls run (u # urls) w =
     (case process_url run u w of
        (evs, w') \<Rightarrow> (case for_urls run urls w' of (evs', w'') \<Rightarrow> (evs @ evs', w'')))"

text \<open>The handler of the \<open>end\<close> event (lines 28 to 71), and the whole script.\<close>

definition on_end :: "('w, 'n::zero) runner \<Rightarrow> ustring list \<Rightarrow> 'w \<Rightarrow> 'n event list \<times> 'w" where
  "on_end run urls w =
     (case for_urls run urls w of
        (evs, w') \<Rightarrow> ([LogCsvProcessed, CreateOutput] @ evs @ [EndOutput, LogCompleted], w'))"

definition main :: "('w, 'n::zero) runner \<Rightarrow> row list \<Rightarrow> 'w \<Rightarrow> 'n event list \<times> 'w" where
  "main run rows w = on_end run (load_urls rows) w"

section \<open>The audit runner\<close>

text \<open>
  The browser, the page and the audit tool are outside the script. A \<open>session\<close> says how
  each awaited step of one call of \<open>runLighthouseAudit\<close> settles: \<open>None\<close> when the step
  succeeds and \<open>Some e\<close> when it throws \<open>e\<close>, or the value it yields.
\<close>

datatype 'n race_outcome =
    Resolved "thrown + 'n"
  | Rejected thrown
  | TimerFired

text \<open>
  \<open>Resolved\<close>: the audit settles first and fulfils; reading
  \<open>lhr.categories.accessibility.score\<close> from its value yields a number or throws.
  \<open>Rejected\<close>: the audit settles first and rejects. \<open>TimerFired\<close>: the 60 second timer
  of line 98 settles first.
\<close>

record 'n session =
  launch :: "thrown option"
  newPage :: "thrown option"
  goto :: "thrown option"
  title :: "thrown + ustring"
  evalDescription :: "ustring option"
  importLighthouse :: "thrown option"
  startLighthouse :: "thrown option"
  race :: "'n race_outcome"
  close :: "thrown option"

text \<open>
  The body of the \<open>try\<close> block (lines 79 to 106). A failing \<open>$eval\<close> of the
  meta description is caught on the spot and replaced by a fixed string.
\<close>

definition try_block ::
  "('n::{times,numeral}) session \<Rightarrow> ustring \<Rightarrow> browser_event list \<times> (thrown + 'n audit)"
where
  "try_block s u =
     (case goto s of
        Some e \<Rightarrow> ([LogNavigating u, Goto u 60000], Inl e)
      | None \<Rightarrow>
     (case title s of
        Inl e \<Rightarrow> ([LogNavigating u, Goto u 60000, LogExtracting u, Title], Inl e)
      | Inr metaTitle' \<Rightarrow>
     (let metaDescription' =
            (case evalDescription s of
               Some content \<Rightarrow> content
             | None \<Rightarrow> ustr ''No meta description'')
      in
     (case importLighthouse s of
        Some e \<Rightarrow>
          ([LogNavigating u, Goto u 60000, LogExtracting u, Title, EvalDescription,
            LogRunning u, ImportLighthouse], Inl e)
      | None \<Rightarrow>
     (case startLighthouse s of
        Some e \<Rightarrow>
          ([LogNavigating u, Goto u 60000, LogExtracting u, Title, EvalDescription,
            LogRunning u, ImportLighthouse, StartLighthouse u], Inl e)
      | None \<Rightarrow>
          ([LogNavigating u, Goto u 60000, LogExtracting u, Title, EvalDescription,
            LogRunning u, ImportLighthouse, StartLighthouse u, StartTimer auditTimeout],
           (case race s of
              TimerFired \<Rightarrow> Inl (Error (ustr ''Lighthouse audit timed out''))
            | Rejected e \<Rightarrow> Inl e
            | Resolved (Inl e) \<Rightarrow> Inl e
            | Resolved (Inr lhr_score) \<Rightarrow>
                Inr \<lparr>score = Some (lhr_score * 100),
                     metaTitle = metaTitle',
                     metaDescription = metaDescription'\<rparr>)))))))"

text \<open>
  \<open>runLighthouseAudit\<close> (lines 74 to 113). The world is a table \<open>web\<close> of sessions, one
  for each launch, and the number of launches so far. Lines 75 and 76 come before the
  \<open>try\<close>; the \<open>catch\<close> logs and throws the error again; the \<open>finally\<close> closes the
  browser, and an error thrown by \<open>close\<close> replaces the outcome of the block.
\<close>

definition runLighthouseAudit ::
  "(nat \<Rightarrow> ustring \<Rightarrow> ('n::{times,numeral}) session) \<Rightarrow> (nat, 'n) runner"
where
  "runLighthouseAudit web u k =
     (let s = web k u;
          ran =
            (case launch s of
               Some e \<Rightarrow> ([Launch], Inl e)
             | None \<Rightarrow>
            (case newPage s of
               Some e \<Rightarrow> ([Launch, NewPage], Inl e)
             | None \<Rightarrow>
            (case try_block s u of
               (evs, outcome) \<Rightarrow>
                 (let caught =
                        (case outcome of
                           Inl error \<Rightarrow> [LogProcessingError u (message error)]
                         | Inr res \<Rightarrow> [])
                  in ([Launch, NewPage] @ evs @ caught @ [Close],
                      (case close s of Some e \<Rightarrow> Inl e | None \<Rightarrow> outcome))))))
      in (ran, Suc k))"

section \<open>Reading a trace\<close>

text \<open>The rows written, in order.\<close>

fun written :: "'n event list \<Rightarrow> 'n result_row list" where
  "written [] = []"
| "written (Write r # evs) = r # written evs"
| "written (e # evs) = written evs"

text \<open>The calls of the audit runner, in order, each with what it did.\<close>

fun runs :: "'n event list \<Rightarrow> browser_event list list" where
  "runs [] = []"
| "runs (RunLighthouseAudit u bev # evs) = bev # runs evs"
| "runs (e # evs) = runs evs"

definition invocations :: "'n event list \<Rightarrow> nat" where
  "invocations evs = length (runs evs)"

text \<open>The number of times a browser was closed.\<close>

definition teardowns :: "'n event list \<Rightarrow> nat" where
  "teardowns evs = sum_list (map (\<lambda>bev. count_list bev Close) (runs evs))"

text \<open>The URLs whose processing was started, in order.\<close>

fun started :: "'n event list \<Rightarrow> ustring list" where
  "started [] = []"
| "started (LogProcessing u # evs) = u # started evs"
| "started (e # evs) = started evs"

text \<open>The log lines that end a retry loop: success, or giving up.\<close>

fun terminal :: "ustring \<Rightarrow> 'n event \<Rightarrow> bool" where
  "terminal u (LogSuccess u' sc) = (u' = u)"
| "terminal u (LogSkipping u') = (u' = u)"
| "terminal u e = False"

text \<open>
  The part of a trace that belongs to one URL \<open>u\<close>: it starts the URL, pauses, runs the
  retry loop to a terminal log line, and then writes one row, for \<open>u\<close>, as its last act.
\<close>

definition url_segment :: "ustring \<Rightarrow> 'n event list \<Rightarrow> bool" where
  "url_segment u seg \<longleftrightarrow>
     (case seg of
        e1 # e2 # rest \<Rightarrow>
          e1 = LogProcessing u \<and> e2 = Sleep 3000 \<and> started rest = [] \<and> rest \<noteq> [] \<and>
          (case last rest of Write r \<Rightarrow> url r = u | _ \<Rightarrow> False) \<and>
          (let loop = butlast rest
           in loop \<noteq> [] \<and> terminal u (last loop) \<and> written loop = [] \<and>
              1 \<le> invocations loop)
      | _ \<Rightarrow> False)"

text \<open>The row recorded for a URL that was given up.\<close>

definition sentinel :: "ustring \<Rightarrow> ('n::zero) result_row" where
  "sentinel u = \<lparr>score = Some 0, metaTitle = ustr ''N/A'', metaDescription = ustr ''N/A'', url = u\<rparr>"

text \<open>
  The loop gave up at attempt \<open>n\<close>: the failure of attempt \<open>n\<close> is logged and the
  next line logged is that of line 55.
\<close>

fun exhausted_at :: "nat \<Rightarrow> 'n event list \<Rightarrow> bool" where
  "exhausted_at n [] = False"
| "exhausted_at n (LogAttemptFailed m u msg # evs) =
     ((m = n \<and> (case evs of LogSkipping u' # rest \<Rightarrow> True | _ \<Rightarrow> False)) \<or> exhausted_at n evs)"
| "exhausted_at n (e # evs) = exhausted_at n evs"

text \<open>The retry loop of URL \<open>u\<close> gave up: line 55 was logged.\<close>

definition gave_up :: "ustring \<Rightarrow> 'n event list \<Rightarrow> bool" where
  "gave_up u evs \<longleftrightarrow> LogSkipping u \<in> set evs"

text \<open>
  A segment for \<open>u\<close> in which, if the loop gave up, the row written is the sentinel.
\<close>

definition recorded_segment :: "ustring \<Rightarrow> 'n::zero event list \<Rightarrow> bool" where
  "recorded_segment u seg \<longleftrightarrow>
     url_segment u seg \<and> (gave_up u seg \<longrightarrow> last seg = Write (sentinel u))"

text \<open>The browser and its page were acquired: lines 75 and 76 did not throw.\<close>

definition acquired :: "'n session \<Rightarrow> bool" where
  "acquired s \<longleftrightarrow> launch s = None \<and> newPage s = None"

text \<open>How a call of a runner settles, and the two kinds of failure the policy tells apart.\<close>

definition outcome_of :: "('w, 'n) runner \<Rightarrow> ustring \<Rightarrow> 'w \<Rightarrow> thrown + 'n audit" where
  "outcome_of run u w = snd (fst (run u w))"

definition fails_timed_out :: "thrown + 'a \<Rightarrow> bool" where
  "fails_timed_out r =
     (case r of Inl e \<Rightarrow> message e = ustr ''Lighthouse audit timed out'' | Inr res \<Rightarrow> False)"

definition fails_otherwise :: "thrown + 'a \<Rightarrow> bool" where
  "fails_otherwise r =
     (case r of Inl e \<Rightarrow> message e \<noteq> ustr ''Lighthouse audit timed out'' | Inr res \<Rightarrow> False)"

section \<open>Runners and inputs for concrete runs\<close>

text \<open>A scripted runner: its \<open>k\<close>-th call settles as the script says.\<close>

definition stub :: "(nat \<Rightarrow> thrown + 'n audit) \<Rightarrow> (nat, 'n) runner" where
  "stub script u k = (([], script k), Suc k)"

definition timedOut :: thrown where
  "timedOut = Error (ustr ''Lighthouse audit timed out'')"

definition refused :: thrown where
  "refused = Error (ustr ''net::ERR_CONNECTION_REFUSED'')"

definition example_url :: ustring where
  "example_url = ustr ''http://example.com''"

definition example_audit :: "int audit" where
  "example_audit = \<lparr>score = Some 87, metaTitle = ustr ''Example Domain'',
                    metaDescription = ustr ''No meta description''\<rparr>"

text \<open>A script that fails twice, not by a timeout, and then succeeds.\<close>

definition third_time_lucky :: "nat \<Rightarrow> thrown + int audit" where
  "third_time_lucky k = (if k < 2 then Inl refused else Inr example_audit)"

text \<open>A script that fails once, not by a timeout, and by a timeout from then on.\<close>

definition refused_then_timeout :: "nat \<Rightarrow> thrown + int audit" where
  "refused_then_timeout k = (if k = 0 then Inl refused else Inl timedOut)"

text \<open>A session in which every step succeeds and the audit reports the full score.\<close>

definition healthy :: "int session" where
  "healthy = \<lparr>launch = None, newPage = None, goto = None,
              title = Inr (ustr ''Example Domain''), evalDescription = None,
              importLighthouse = None, startLighthouse = None,
              race = Resolved (Inr 1), close = None\<rparr>"

text \<open>A site that refuses the first connection and answers from then on.\<close>

definition flaky_web :: "nat \<Rightarrow> ustring \<Rightarrow> int session" where
  "flaky_web k u = (if k = 0 then healthy\<lparr>goto := Some refused\<rparr> else healthy)"

text \<open>The three rows of the scenario: \<open>example.com\<close>, an empty cell, \<open>https://test.org\<close>.\<close>

definition scenario_rows :: "row list" where
  "scenario_rows =
     [[ustr ''url'' \<mapsto> ustr ''example.com''],
      [ustr ''url'' \<mapsto> []],
      [ustr ''url'' \<mapsto> ustr ''https://test.org'']]"

definition other_url :: ustring where
  "other_url = ustr ''https://test.org''"

text \<open>A script that fails three times, not by a timeout, and succeeds from then on.\<close>

definition three_refusals_then_ok :: "nat \<Rightarrow> thrown + int audit" where
  "three_refusals_then_ok k = (if k < 3 then Inl refused else Inr example_audit)"

text \<open>A site whose pages load and whose audit never settles before the timer.\<close>

definition times_out_after_title :: "nat \<Rightarrow> ustring \<Rightarrow> int session" where
  "times_out_after_title k u = healthy\<lparr>race := TimerFired\<rparr>"

text \<open>Rows with blanks around the cell, a missing column, and an upper-case scheme.\<close>

definition messy_rows :: "row list" where
  "messy_rows =
     [[ustr ''url'' \<mapsto> ustr ''  Example.com ''],
      Map.empty,
      [ustr ''url'' \<mapsto> ustr '' HTTPS://Test.org'']]"

section \<open>Facts about the loader\<close>

lemma matches_lower:
  "matchesIgnoreCase x CHR ''h'' \<longleftrightarrow> toLowerAscii x = 0x68"
  "matchesIgnoreCase x CHR ''t'' \<longleftrightarrow> toLowerAscii x = 0x74"
  "matchesIgnoreCase x CHR ''p'' \<longleftrightarrow> toLowerAscii x = 0x70"
  "matchesIgnoreCase x CHR ''s'' \<longleftrightarrow> toLowerAscii x = 0x73"
  "matchesIgnoreCase x CHR '':'' \<longleftrightarrow> toLowerAscii x = 0x3A"
  "matchesIgnoreCase x CHR ''/'' \<longleftrightarrow> toLowerAscii x = 0x2F"
  unfolding matchesIgnoreCase_def toUpperAscii_def toLowerAscii_def
  by (simp; unat_arith)+

lemma startsWith_Cons:
  "startsWithIgnoreCase (c # p) s \<longleftrightarrow>
     (case s of [] \<Rightarrow> False | x # s' \<Rightarrow> toLowerAscii x = of_char c \<and> startsWithIgnoreCase p s')"
  by (cases s) (auto simp: startsWithIgnoreCase_def ustr_def)

lemma startsWith_Nil: "startsWithIgnoreCase [] s"
  by (simp add: startsWithIgnoreCase_def ustr_def)

lemma regex_test_hasScheme: "regex_test schemeRegex s = hasScheme s"
  unfolding regex_test_def schemeRegex_def hasScheme_def
  by (auto simp: startsWith_Cons startsWith_Nil matches_lower split: list.splits)

lemma on_data_loaded: "on_data urls r = urls @ loaded_of_row r"
  by (simp add: on_data_def loaded_of_row_def normalized_def regex_test_hasScheme Let_def
           split: option.splits)

lemma foldl_on_data: "foldl on_data urls rows = urls @ concat (map loaded_of_row rows)"
  by (induction rows arbitrary: urls) (simp_all add: on_data_loaded)

lemma trim_middle:
  "\<exists>l r. s = l @ trim s @ r \<and> list_all isWhiteSpace l \<and> list_all isWhiteSpace r"
proof -
  let ?t = "dropWhile isWhiteSpace s"
  have "s = takeWhile isWhiteSpace s @ ?t" by simp
  moreover have "?t = trim s @ rev (takeWhile isWhiteSpace (rev ?t))"
  proof -
    have "rev ?t = takeWhile isWhiteSpace (rev ?t) @ dropWhile isWhiteSpace (rev ?t)" by simp
    then have "rev (rev ?t) =
        rev (dropWhile isWhiteSpace (rev ?t)) @ rev (takeWhile isWhiteSpace (rev ?t))"
      by (metis rev_append)
    then show ?thesis by (simp add: trim_def)
  qed
  moreover have "list_all isWhiteSpace (takeWhile isWhiteSpace s)"
    by (simp add: list_all_iff) (meson set_takeWhileD)
  moreover have "list_all isWhiteSpace (rev (takeWhile isWhiteSpace (rev ?t)))"
    by (simp add: list_all_iff) (meson set_takeWhileD)
  ultimately show ?thesis by (metis append.assoc)
qed

lemma trim_ends:
  assumes "trim s \<noteq> []"
  shows "\<not> isWhiteSpace (hd (trim s)) \<and> \<not> isWhiteSpace (last (trim s))"
proof -
  let ?t = "dropWhile isWhiteSpace s"
  let ?d = "dropWhile isWhiteSpace (rev ?t)"
  have d: "?d \<noteq> []" using assms by (simp add: trim_def)
  then have "\<not> isWhiteSpace (hd ?d)" by (rule hd_dropWhile)
  then have l: "\<not> isWhiteSpace (last (trim s))"
    using d by (simp add: trim_def last_rev)
  have t: "?t \<noteq> []"
  proof
    assume "?t = []"
    with d show False by (metis dropWhile.simps(1) rev.simps(1))
  qed
  then have h: "\<not> isWhiteSpace (hd ?t)" by (rule hd_dropWhile)
  have "last ?d = last (rev ?t)"
    using d by (metis last_appendR takeWhile_dropWhile_id)
  then have "hd (trim s) = hd ?t"
    using d t by (simp add: trim_def hd_rev last_rev)
  with h l show ?thesis by simp
qed

section \<open>Facts about the retry loop\<close>

lemma retry_loop_success:
  assumes "n \<le> maxRetries" "run u w = ((bev, Inr res), w')"
  shows "retry_loop run u n vars w =
           (([LogAttempt n u, RunLighthouseAudit u bev, LogSuccess u (score res)], res), w')"
  using assms by (subst retry_loop.simps) simp

lemma retry_loop_give_up:
  assumes "n \<le> maxRetries" "run u w = ((bev, Inl error), w')"
    and "n = maxRetries \<or> (n = 2 \<and> message error = ustr ''Lighthouse audit timed out'')"
  shows "retry_loop run u n vars w =
           (([LogAttempt n u, RunLighthouseAudit u bev,
              LogAttemptFailed n u (message error), LogSkipping u],
             \<lparr>score = Some 0,
              metaTitle = js_or (metaTitle vars) (ustr ''N/A''),
              metaDescription = js_or (metaDescription vars) (ustr ''N/A'')\<rparr>), w')"
  using assms by (subst retry_loop.simps) auto

lemma retry_loop_again:
  assumes "n \<le> maxRetries" "run u w = ((bev, Inl error), w')"
    and "\<not> (n = maxRetries \<or> (n = 2 \<and> message error = ustr ''Lighthouse audit timed out''))"
    and "retry_loop run u (Suc n) vars w' = ((evs, vars'), w'')"
  shows "retry_loop run u n vars w =
           (([LogAttempt n u, RunLighthouseAudit u bev,
              LogAttemptFailed n u (message error), Sleep 3000] @ evs, vars'), w'')"
  using assms by (subst retry_loop.simps) auto

lemma retry_loop_starts:
  assumes "n \<le> maxRetries"
  shows "\<exists>evs. fst (fst (retry_loop run u n vars w)) = LogAttempt n u # evs"
  using assms by (subst retry_loop.simps) (auto split: prod.splits sum.splits)

text \<open>Induction over the attempts that are left.\<close>

lemma retry_loop_induct [consumes 1, case_names success give_up again]:
  assumes bound: "n \<le> maxRetries"
    and success: "\<And>n w bev res w'. n \<le> maxRetries \<Longrightarrow> run u w = ((bev, Inr res), w') \<Longrightarrow>
        P n w (([LogAttempt n u, RunLighthouseAudit u bev, LogSuccess u (score res)], res), w')"
    and give_up: "\<And>n w bev error w'. n \<le> maxRetries \<Longrightarrow> run u w = ((bev, Inl error), w') \<Longrightarrow>
        n = maxRetries \<or> (n = 2 \<and> message error = ustr ''Lighthouse audit timed out'') \<Longrightarrow>
        P n w (([LogAttempt n u, RunLighthouseAudit u bev,
              LogAttemptFailed n u (message error), LogSkipping u],
             \<lparr>score = Some 0,
              metaTitle = js_or (metaTitle vars) (ustr ''N/A''),
              metaDescription = js_or (metaDescription vars) (ustr ''N/A'')\<rparr>), w')"
    and again: "\<And>n w bev error w' evs vars' w''. Suc n \<le> maxRetries \<Longrightarrow>
        run u w = ((bev, Inl error), w') \<Longrightarrow>
        \<not> (n = 2 \<and> message error = ustr ''Lighthouse audit timed out'') \<Longrightarrow>
        retry_loop run u (Suc n) vars w' = ((evs, vars'), w'') \<Longrightarrow>
        P (Suc n) w' ((evs, vars'), w'') \<Longrightarrow>
        P n w (([LogAttempt n u, RunLighthouseAudit u bev,
              LogAttemptFailed n u (message error), Sleep 3000] @ evs, vars'), w'')"
  shows "P n w (retry_loop run u n vars w)"
  using bound
proof (induction "maxRetries - n" arbitrary: n w)
  case 0
  then have n: "n = maxRetries" by simp
  obtain bev outcome w' where r: "run u w = ((bev, outcome), w')"
    by (metis prod.exhaust)
  show ?case
  proof (cases outcome)
    case (Inl error)
    with r n show ?thesis
      using retry_loop_give_up [of n run u w bev error w' vars] give_up [of n w bev error w']
      by simp
  next
    case (Inr res)
    with r n show ?thesis
      using retry_loop_success [of n run u w bev res w' vars] success [of n w bev res w']
      by simp
  qed
next
  case (Suc k)
  then have n: "Suc n \<le> maxRetries" "n \<le> maxRetries" by simp_all
  obtain bev outcome w' where r: "run u w = ((bev, outcome), w')"
    by (metis prod.exhaust)
  show ?case
  proof (cases outcome)
    case (Inr res)
    with r n show ?thesis
      using retry_loop_success [of n run u w bev res w' vars] success [of n w bev res w']
      by simp
  next
    case (Inl error)
    show ?thesis
    proof (cases "n = 2 \<and> message error = ustr ''Lighthouse audit timed out''")
      case True
      with r n Inl show ?thesis
        using retry_loop_give_up [of n run u w bev error w' vars] give_up [of n w bev error w']
        by simp
    next
      case False
      obtain evs vars' w'' where rec: "retry_loop run u (Suc n) vars w' = ((evs, vars'), w'')"
        by (metis prod.exhaust)
      have "k = maxRetries - Suc n" using Suc.hyps(2) by simp
      then have "P (Suc n) w' (retry_loop run u (Suc n) vars w')"
        using Suc.hyps(1) n(1) by blast
      with rec have ih: "P (Suc n) w' ((evs, vars'), w'')" by simp
      have "\<not> (n = maxRetries \<or> (n = 2 \<and> message error = ustr ''Lighthouse audit timed out''))"
        using False n(1) by simp
      then have "retry_loop run u n vars w =
           (([LogAttempt n u, RunLighthouseAudit u bev,
              LogAttemptFailed n u (message error), Sleep 3000] @ evs, vars'), w'')"
        using retry_loop_again [of n run u w bev error w' vars evs vars' w''] n(2) r Inl rec
        by simp
      then show ?thesis
        using again [of n w bev error w' evs vars' w''] n(1) r Inl False rec ih by simp
    qed
  qed
qed

lemma written_append: "written (xs @ ys) = written xs @ written ys"
  by (induction xs rule: written.induct) simp_all

lemma started_append: "started (xs @ ys) = started xs @ started ys"
  by (induction xs rule: started.induct) simp_all

lemma runs_append: "runs (xs @ ys) = runs xs @ runs ys"
  by (induction xs rule: runs.induct) simp_all

lemma retry_loop_quiet:
  assumes "n \<le> maxRetries"
  shows "written (fst (fst (retry_loop run u n vars w))) = [] \<and>
         started (fst (fst (retry_loop run u n vars w))) = []"
  using assms
  by (induction rule: retry_loop_induct
        [where P = "\<lambda>n w r. written (fst (fst r)) = [] \<and> started (fst (fst r)) = []"])
     simp_all

lemma retry_loop_terminal:
  assumes "n \<le> maxRetries"
  shows "fst (fst (retry_loop run u n vars w)) \<noteq> [] \<and>
         terminal u (last (fst (fst (retry_loop run u n vars w))))"
  using assms
  by (induction rule: retry_loop_induct
        [where P = "\<lambda>n w r. fst (fst r) \<noteq> [] \<and> terminal u (last (fst (fst r)))"])
     simp_all

lemma retry_loop_invocations:
  assumes "n \<le> maxRetries"
  shows "1 \<le> invocations (fst (fst (retry_loop run u n vars w))) \<and>
         invocations (fst (fst (retry_loop run u n vars w))) \<le> Suc maxRetries - n"
  using assms
  by (induction rule: retry_loop_induct
        [where P = "\<lambda>n w r. 1 \<le> invocations (fst (fst r)) \<and>
                            invocations (fst (fst r)) \<le> Suc maxRetries - n"])
     (auto simp: invocations_def)

lemma retry_loop_exhausted_vars:
  assumes "n \<le> maxRetries"
  shows "LogSkipping u \<in> set (fst (fst (retry_loop run u n vars w))) \<longrightarrow>
         snd (fst (retry_loop run u n vars w)) =
           \<lparr>score = Some 0,
            metaTitle = js_or (metaTitle vars) (ustr ''N/A''),
            metaDescription = js_or (metaDescription vars) (ustr ''N/A'')\<rparr>"
  using assms
  by (induction rule: retry_loop_induct
        [where P = "\<lambda>n w r. LogSkipping u \<in> set (fst (fst r)) \<longrightarrow> snd (fst r) =
           \<lparr>score = Some 0,
            metaTitle = js_or (metaTitle vars) (ustr ''N/A''),
            metaDescription = js_or (metaDescription vars) (ustr ''N/A'')\<rparr>"])
     simp_all

lemma later_attempts_not_exhausted_at:
  assumes "k \<le> maxRetries"
  shows "n < k \<longrightarrow> \<not> exhausted_at n (fst (fst (retry_loop run u k vars w)))"
  using assms
  by (induction rule: retry_loop_induct
        [where P = "\<lambda>k w r. n < k \<longrightarrow> \<not> exhausted_at n (fst (fst r))"])
     simp_all

lemma process_url_trace:
  assumes "retry_loop run u 1 \<lparr>score = None, metaTitle = [], metaDescription = []\<rparr> w =
             ((evs, vars), w')"
  shows "process_url run u w =
           ([LogProcessing u, Sleep 3000] @ evs @
            [Write \<lparr>score = score vars, metaTitle = metaTitle vars,
                    metaDescription = metaDescription vars, url = u\<rparr>], w')"
  using assms by (simp add: process_url_def)

lemma retry_loop_next:
  assumes "n \<le> maxRetries" "run u w = ((bev, Inl error), w')"
    and "\<not> (n = maxRetries \<or> (n = 2 \<and> message error = ustr ''Lighthouse audit timed out''))"
    and "m = Suc n"
    and "retry_loop run u m vars w' = ((evs, vars'), w'')"
  shows "retry_loop run u n vars w =
           ((LogAttempt n u # RunLighthouseAudit u bev #
              LogAttemptFailed n u (message error) # Sleep 3000 # evs, vars'), w'')"
proof -
  from assms(4,5) have "retry_loop run u (Suc n) vars w' = ((evs, vars'), w'')"
    by simp
  with assms(1,2,3) have "retry_loop run u n vars w =
           (([LogAttempt n u, RunLighthouseAudit u bev,
              LogAttemptFailed n u (message error), Sleep 3000] @ evs, vars'), w'')"
    using retry_loop_again [of n run u w bev error w' vars evs vars' w''] by blast
  then show ?thesis by simp
qed

lemma second_timeout_gives_up:
  assumes r1: "run u w = ((b1, Inl e1), w1)"
    and r2: "run u w1 = ((b2, Inl e2), w2)"
    and t2: "message e2 = ustr ''Lighthouse audit timed out''"
  shows "retry_loop run u 1 vars w =
           (([LogAttempt 1 u, RunLighthouseAudit u b1, LogAttemptFailed 1 u (message e1),
              Sleep 3000,
              LogAttempt 2 u, RunLighthouseAudit u b2, LogAttemptFailed 2 u (message e2),
              LogSkipping u],
             \<lparr>score = Some 0,
              metaTitle = js_or (metaTitle vars) (ustr ''N/A''),
              metaDescription = js_or (metaDescription vars) (ustr ''N/A'')\<rparr>), w2)"
proof -
  have second: "retry_loop run u 2 vars w1 =
           (([LogAttempt 2 u, RunLighthouseAudit u b2, LogAttemptFailed 2 u (message e2),
              LogSkipping u],
             \<lparr>score = Some 0,
              metaTitle = js_or (metaTitle vars) (ustr ''N/A''),
              metaDescription = js_or (metaDescription vars) (ustr ''N/A'')\<rparr>), w2)"
    using retry_loop_give_up [of 2 run u w1 b2 e2 w2 vars] r2 t2
    by (simp add: maxRetries_def)
  have a: "(1::nat) \<le> maxRetries" by (simp add: maxRetries_def)
  have b: "\<not> ((1::nat) = maxRetries \<or> ((1::nat) = 2 \<and> message e1 = ustr ''Lighthouse audit timed out''))"
    by (simp add: maxRetries_def)
  have c: "(2::nat) = Suc 1" by simp
  show ?thesis
    by (rule retry_loop_next [of 1 run u w b1 e1 w1 2 vars _ _ w2, OF a r1 b c second])
qed

lemma three_failures_give_up:
  assumes r1: "run u w = ((b1, Inl e1), w1)"
    and r2: "run u w1 = ((b2, Inl e2), w2)"
    and t2: "message e2 \<noteq> ustr ''Lighthouse audit timed out''"
    and r3: "run u w2 = ((b3, Inl e3), w3)"
  shows "retry_loop run u 1 vars w =
           (([LogAttempt 1 u, RunLighthouseAudit u b1, LogAttemptFailed 1 u (message e1),
              Sleep 3000,
              LogAttempt 2 u, RunLighthouseAudit u b2, LogAttemptFailed 2 u (message e2),
              Sleep 3000,
              LogAttempt 3 u, RunLighthouseAudit u b3, LogAttemptFailed 3 u (message e3),
              LogSkipping u],
             \<lparr>score = Some 0,
              metaTitle = js_or (metaTitle vars) (ustr ''N/A''),
              metaDescription = js_or (metaDescription vars) (ustr ''N/A'')\<rparr>), w3)"
proof -
  have third: "retry_loop run u 3 vars w2 =
           (([LogAttempt 3 u, RunLighthouseAudit u b3, LogAttemptFailed 3 u (message e3),
              LogSkipping u],
             \<lparr>score = Some 0,
              metaTitle = js_or (metaTitle vars) (ustr ''N/A''),
              metaDescription = js_or (metaDescription vars) (ustr ''N/A'')\<rparr>), w3)"
    using retry_loop_give_up [of 3 run u w2 b3 e3 w3 vars] r3
    by (simp add: maxRetries_def)
  have a2: "(2::nat) \<le> maxRetries" by (simp add: maxRetries_def)
  have b2: "\<not> ((2::nat) = maxRetries \<or>
              ((2::nat) = 2 \<and> message e2 = ustr ''Lighthouse audit timed out''))"
    using t2 by (simp add: maxRetries_def)
  have c2: "(3::nat) = Suc 2" by simp
  have second: "retry_loop run u 2 vars w1 =
           (([LogAttempt 2 u, RunLighthouseAudit u b2, LogAttemptFailed 2 u (message e2),
              Sleep 3000,
              LogAttempt 3 u, RunLighthouseAudit u b3, LogAttemptFailed 3 u (message e3),
              LogSkipping u],
             \<lparr>score = Some 0,
              metaTitle = js_or (metaTitle vars) (ustr ''N/A''),
              metaDescription = js_or (metaDescription vars) (ustr ''N/A'')\<rparr>), w3)"
    by (rule retry_loop_next [of 2 run u w1 b2 e2 w2 3 vars _ _ w3, OF a2 r2 b2 c2 third])
  have a1: "(1::nat) \<le> maxRetries" by (simp add: maxRetries_def)
  have b1: "\<not> ((1::nat) = maxRetries \<or>
              ((1::nat) = 2 \<and> message e1 = ustr ''Lighthouse audit timed out''))"
    by (simp add: maxRetries_def)
  have c1: "(2::nat) = Suc 1" by simp
  show ?thesis
    by (rule retry_loop_next [of 1 run u w b1 e1 w1 2 vars _ _ w3, OF a1 r1 b1 c1 second])
qed

lemma two_failures_then_success:
  assumes r1: "run u w = ((b1, Inl e1), w1)"
    and r2: "run u w1 = ((b2, Inl e2), w2)"
    and t2: "message e2 \<noteq> ustr ''Lighthouse audit timed out''"
    and r3: "run u w2 = ((b3, Inr res), w3)"
  shows "retry_loop run u 1 vars w =
           (([LogAttempt 1 u, RunLighthouseAudit u b1, LogAttemptFailed 1 u (message e1),
              Sleep 3000,
              LogAttempt 2 u, RunLighthouseAudit u b2, LogAttemptFailed 2 u (message e2),
              Sleep 3000,
              LogAttempt 3 u, RunLighthouseAudit u b3, LogSuccess u (score res)],
             res), w3)"
proof -
  have third: "retry_loop run u 3 vars w2 =
           (([LogAttempt 3 u, RunLighthouseAudit u b3, LogSuccess u (score res)],
             res), w3)"
    using retry_loop_success [of 3 run u w2 b3 res w3 vars] r3
    by (simp add: maxRetries_def)
  have a2: "(2::nat) \<le> maxRetries" by (simp add: maxRetries_def)
  have b2: "\<not> ((2::nat) = maxRetries \<or>
              ((2::nat) = 2 \<and> message e2 = ustr ''Lighthouse audit timed out''))"
    using t2 by (simp add: maxRetries_def)
  have c2: "(3::nat) = Suc 2" by simp
  have second: "retry_loop run u 2 vars w1 =
           (([LogAttempt 2 u, RunLighthouseAudit u b2, LogAttemptFailed 2 u (message e2),
              Sleep 3000,
              LogAttempt 3 u, RunLighthouseAudit u b3, LogSuccess u (score res)],
             res), w3)"
    by (rule retry_loop_next [of 2 run u w1 b2 e2 w2 3 vars _ _ w3, OF a2 r2 b2 c2 third])
  have a1: "(1::nat) \<le> maxRetries" by (simp add: maxRetries_def)
  have b1: "\<not> ((1::nat) = maxRetries \<or>
              ((1::nat) = 2 \<and> message e1 = ustr ''Lighthouse audit timed out''))"
    by (simp add: maxRetries_def)
  have c1: "(2::nat) = Suc 1" by simp
  show ?thesis
    by (rule retry_loop_next [of 1 run u w b1 e1 w1 2 vars _ _ w3, OF a1 r1 b1 c1 second])
qed

lemma failing_run:
  assumes "fails_timed_out (outcome_of run u w) \<or> fails_otherwise (outcome_of run u w)"
  obtains b e w' where "run u w = ((b, Inl e), w')"
  using assms
  by (cases "run u w" rule: prod.exhaust [case_product prod.exhaust])
     (auto simp: outcome_of_def fails_timed_out_def fails_otherwise_def split: sum.splits)

lemma js_or_empty [simp]: "js_or [] b = b"
  by (simp add: js_or_def)

lemma invocations_simps [simp]:
  "invocations [] = 0"
  "invocations (RunLighthouseAudit u bev # evs) = Suc (invocations evs)"
  "invocations (LogProcessing u # evs) = invocations evs"
  "invocations (Sleep t # evs) = invocations evs"
  "invocations (LogAttempt n u # evs) = invocations evs"
  "invocations (LogSuccess u sc # evs) = invocations evs"
  "invocations (LogAttemptFailed n u msg # evs) = invocations evs"
  "invocations (LogSkipping u # evs) = invocations evs"
  "invocations (Write r # evs) = invocations evs"
  by (simp_all add: invocations_def)

lemma process_url_shape:
  fixes run :: "('w, 'n::zero) runner"
  shows "url_segment u (fst (process_url run u w)) \<and>
         map url (written (fst (process_url run u w))) = [u] \<and>
         (gave_up u (fst (process_url run u w)) \<longrightarrow>
            last (fst (process_url run u w)) = Write (sentinel u))"
proof -
  let ?v0 = "\<lparr>score = None, metaTitle = [], metaDescription = []\<rparr> :: 'n audit"
  obtain evs vars w' where loop: "retry_loop run u 1 ?v0 w = ((evs, vars), w')"
    by (metis prod.exhaust)
  let ?row = "\<lparr>score = score vars, metaTitle = metaTitle vars,
                metaDescription = metaDescription vars, url = u\<rparr>"
  have trace: "fst (process_url run u w) = LogProcessing u # Sleep 3000 # evs @ [Write ?row]"
    using process_url_trace [OF loop] by simp
  have one: "(1::nat) \<le> maxRetries" by (simp add: maxRetries_def)
  have quiet: "written evs = []" "started evs = []"
    using retry_loop_quiet [OF one, of run u ?v0 w] loop by simp_all
  have fin: "evs \<noteq> []" "terminal u (last evs)"
    using retry_loop_terminal [OF one, of run u ?v0 w] loop by simp_all
  have calls: "1 \<le> invocations evs"
    using retry_loop_invocations [OF one, of run u ?v0 w] loop by simp
  have seg: "url_segment u (fst (process_url run u w))"
    unfolding trace url_segment_def using quiet fin calls
    by (simp add: started_append)
  have rows: "map url (written (fst (process_url run u w))) = [u]"
    unfolding trace using quiet by (simp add: written_append)
  have sent: "last (fst (process_url run u w)) = Write (sentinel u)"
    if "gave_up u (fst (process_url run u w))"
  proof -
    from that have "LogSkipping u \<in> set evs"
      unfolding trace gave_up_def by simp
    then have "vars = \<lparr>score = Some 0, metaTitle = ustr ''N/A'', metaDescription = ustr ''N/A''\<rparr>"
      using retry_loop_exhausted_vars [OF one, of u run ?v0 w] loop by simp
    then show ?thesis unfolding trace by (simp add: sentinel_def)
  qed
  from seg rows sent show ?thesis by blast
qed

lemma for_urls_segments:
  fixes run :: "('w, 'n::zero) runner"
  shows "\<exists>segs. fst (for_urls run urls w) = concat segs \<and>
           list_all2 (\<lambda>u seg. recorded_segment u seg \<and> map url (written seg) = [u]) urls segs"
proof (induction urls arbitrary: w)
  case Nil
  show ?case by simp
next
  case (Cons u urls)
  obtain evs w' where p: "process_url run u w = (evs, w')"
    by (metis prod.exhaust)
  obtain segs where segs: "fst (for_urls run urls w') = concat segs"
      "list_all2 (\<lambda>u seg. recorded_segment u seg \<and> map url (written seg) = [u]) urls segs"
    using Cons.IH [of w'] by blast
  have here: "recorded_segment u evs \<and> map url (written evs) = [u]"
    using process_url_shape [of u run w] p by (simp add: recorded_segment_def)
  obtain rest w'' where f: "for_urls run urls w' = (rest, w'')"
    by (metis prod.exhaust)
  have "for_urls run (u # urls) w = (evs @ rest, w'')"
    by (simp add: p f)
  moreover have "rest = concat segs"
    using segs(1) by (simp add: f)
  ultimately have c: "fst (for_urls run (u # urls) w) = concat (evs # segs)"
    by simp
  have d: "list_all2 (\<lambda>u seg. recorded_segment u seg \<and> map url (written seg) = [u])
                   (u # urls) (evs # segs)"
    using here segs(2) by simp
  show ?case
    by (rule exI [of _ "evs # segs"]) (use c d in blast)
qed

lemma written_concat_segments:
  assumes "list_all2 (\<lambda>u seg. map url (written seg) = [u]) urls segs"
  shows "map url (written (concat segs)) = urls"
  using assms by (induction rule: list_all2_induct) (simp_all add: written_append)

lemma on_end_trace:
  "fst (on_end run urls w) =
     [LogCsvProcessed, CreateOutput] @ fst (for_urls run urls w) @ [EndOutput, LogCompleted]"
  by (simp add: on_end_def split: prod.splits)

lemma on_end_rows:
  fixes run :: "('w, 'n::zero) runner"
  shows "map url (written (fst (on_end run urls w))) = urls"
proof -
  obtain segs where segs: "fst (for_urls run urls w) = concat segs"
      "list_all2 (\<lambda>u seg. recorded_segment u seg \<and> map url (written seg) = [u]) urls segs"
    using for_urls_segments [of run urls w] by blast
  have "list_all2 (\<lambda>u seg. map url (written seg) = [u]) urls segs"
    using segs(2) by (rule list_all2_mono) simp
  then show ?thesis
    using written_concat_segments [of urls segs]
    by (simp add: on_end_trace segs(1) written_append)
qed

lemmas run_simps = on_end_def process_url_def retry_loop.simps maxRetries_def stub_def
  js_or_def sentinel_def

section \<open>Facts about the audit runner\<close>

lemma try_block_no_close: "count_list (fst (try_block s u)) Close = 0"
  by (simp add: try_block_def Let_def split: option.splits sum.splits race_outcome.splits)

lemma runner_closes_once:
  assumes "acquired (web k u)"
  shows "count_list (fst (fst (runLighthouseAudit web u k))) Close = 1 \<and>
         last (fst (fst (runLighthouseAudit web u k))) = Close"
  using assms try_block_no_close [of "web k u" u]
  by (cases "try_block (web k u) u")
     (simp add: runLighthouseAudit_def acquired_def Let_def split: sum.splits)

lemma newPage_failure_leaves_browser_open:
  assumes "launch (web k u) = None" "newPage (web k u) = Some e"
  shows "runLighthouseAudit web u k = (([Launch, NewPage], Inl e), Suc k)"
  using assms by (simp add: runLighthouseAudit_def Let_def)

lemma teardowns_simps [simp]:
  "teardowns [] = 0"
  "teardowns (RunLighthouseAudit u bev # evs) = count_list bev Close + teardowns evs"
  "teardowns (LogProcessing u # evs) = teardowns evs"
  "teardowns (Sleep t # evs) = teardowns evs"
  "teardowns (LogAttempt n u # evs) = teardowns evs"
  "teardowns (LogSuccess u sc # evs) = teardowns evs"
  "teardowns (LogAttemptFailed n u msg # evs) = teardowns evs"
  "teardowns (LogSkipping u # evs) = teardowns evs"
  "teardowns (Write r # evs) = teardowns evs"
  by (simp_all add: teardowns_def)

lemma teardowns_append: "teardowns (xs @ ys) = teardowns xs + teardowns ys"
  by (simp add: teardowns_def runs_append)

lemma invocations_append: "invocations (xs @ ys) = invocations xs + invocations ys"
  by (simp add: invocations_def runs_append)

lemma retry_loop_teardowns:
  assumes "n \<le> maxRetries"
    and once: "\<And>w. count_list (fst (fst (run u w))) Close = 1"
  shows "teardowns (fst (fst (retry_loop run u n vars w))) =
         invocations (fst (fst (retry_loop run u n vars w)))"
  using assms(1)
proof (induction rule: retry_loop_induct
        [where P = "\<lambda>n w r. teardowns (fst (fst r)) = invocations (fst (fst r))"])
  case (success n w bev res w')
  then show ?case using once [of w] by simp
next
  case (give_up n w bev error w')
  then show ?case using once [of w] by simp
next
  case (again n w bev error w' evs vars' w'')
  then show ?case using once [of w] by simp
qed

section \<open>The retry policy\<close>

text \<open>
  C1. In the retry loop, attempt \<open>n\<close> (1 to 3) calls the audit runner once. If the call
  succeeds the loop stops at once with the returned result. If it fails, the loop gives
  up (the exhausted outcome: score 0 and the \<open>||\<close> defaults) exactly when \<open>n = 3\<close>, or
  \<open>n = 2\<close> and the message is exactly \<open>Lighthouse audit timed out\<close>; on every other
  failure it pauses 3000 ms and goes on with attempt \<open>n + 1\<close>. So the trace of the
  loop shows giving up at attempt \<open>n\<close> if and only if the call failed and that
  condition holds.
\<close>

theorem retry_transition:
  fixes run :: "('w, 'n::zero) runner"
  assumes "1 \<le> n" and "n \<le> 3" and "run u w = ((bev, outcome), w')"
  shows "(case outcome of
           Inr res \<Rightarrow>
             retry_loop run u n vars w =
               (([LogAttempt n u, RunLighthouseAudit u bev, LogSuccess u (score res)], res), w')
         | Inl error \<Rightarrow>
             if n = 3 \<or> (n = 2 \<and> message error = ustr ''Lighthouse audit timed out'')
             then
               retry_loop run u n vars w =
                 (([LogAttempt n u, RunLighthouseAudit u bev,
                    LogAttemptFailed n u (message error), LogSkipping u],
                   \<lparr>score = Some 0,
                    metaTitle = js_or (metaTitle vars) (ustr ''N/A''),
                    metaDescription = js_or (metaDescription vars) (ustr ''N/A'')\<rparr>), w')
             else
               (\<exists>evs vars' w''.
                  retry_loop run u (n + 1) vars w' = ((LogAttempt (n + 1) u # evs, vars'), w'') \<and>
                  retry_loop run u n vars w =
                    (([LogAttempt n u, RunLighthouseAudit u bev,
                       LogAttemptFailed n u (message error), Sleep 3000,
                       LogAttempt (n + 1) u] @ evs, vars'), w''))) \<and>
         (exhausted_at n (fst (fst (retry_loop run u n vars w))) \<longleftrightarrow>
            (\<exists>error. outcome = Inl error \<and>
               (n = 3 \<or> (n = 2 \<and> message error = ustr ''Lighthouse audit timed out''))))"
proof (cases outcome)
  case (Inr res)
  then show ?thesis
    using assms retry_loop_success [of n run u w bev res w' vars]
    by (simp add: maxRetries_def)
next
  case (Inl error)
  show ?thesis
  proof (cases "n = 3 \<or> (n = 2 \<and> message error = ustr ''Lighthouse audit timed out'')")
    case True
    then show ?thesis
      using assms Inl retry_loop_give_up [of n run u w bev error w' vars]
      by (simp add: maxRetries_def)
  next
    case False
    then have next_ok: "Suc n \<le> maxRetries" using assms by (simp add: maxRetries_def)
    obtain evs0 vars' w'' where rec: "retry_loop run u (Suc n) vars w' = ((evs0, vars'), w'')"
      by (metis prod.exhaust)
    obtain evs where evs: "evs0 = LogAttempt (Suc n) u # evs"
      using retry_loop_starts [OF next_ok, of run u vars w'] rec by auto
    have later: "\<not> exhausted_at n evs0"
      using later_attempts_not_exhausted_at [OF next_ok, of n run u vars w'] rec by simp
    have "retry_loop run u n vars w =
           (([LogAttempt n u, RunLighthouseAudit u bev,
              LogAttemptFailed n u (message error), Sleep 3000] @ evs0, vars'), w'')"
      using retry_loop_again [of n run u w bev error w' vars evs0 vars' w''] False assms Inl rec
      by (simp add: maxRetries_def)
    then show ?thesis
      using False Inl rec evs later by auto
  qed
qed

theorem retry_transition_witness:
  "(1::nat) \<le> 2 \<and> (2::nat) \<le> 3 \<and>
   stub (\<lambda>k. Inl timedOut) example_url 1 = (([], Inl timedOut), 2) \<and>
   retry_loop (stub (\<lambda>k. Inl timedOut)) example_url 2
       \<lparr>score = None, metaTitle = [], metaDescription = []\<rparr> 1 =
     (([LogAttempt 2 example_url, RunLighthouseAudit example_url [],
        LogAttemptFailed 2 example_url (ustr ''Lighthouse audit timed out''),
        LogSkipping example_url],
       \<lparr>score = Some (0::int), metaTitle = ustr ''N/A'', metaDescription = ustr ''N/A''\<rparr>), 2) \<and>
   exhausted_at 2
     (fst (fst (retry_loop (stub (\<lambda>k. Inl timedOut :: thrown + int audit)) example_url 2
                  \<lparr>score = None, metaTitle = [], metaDescription = []\<rparr> 1)))"
  using retry_transition [of 2 "stub (\<lambda>k. Inl timedOut)" example_url 1 "[]" "Inl timedOut" 2
          "\<lparr>score = None, metaTitle = [], metaDescription = []\<rparr>"]
  by (auto simp: stub_def timedOut_def js_or_def)

text \<open>
  C2. If every call of the audit runner for a URL fails with the message
  \<open>Lighthouse audit timed out\<close>, the runner is called exactly twice for that URL: once
  in the world the URL starts in, once in the world the first call leaves. The loop
  gives up after the second call, the sentinel row is written, and the world is the one
  the second call leaves; there is no third call.
\<close>

theorem always_timeout_two_invocations:
  fixes run :: "('w, 'n::zero) runner"
  assumes "\<forall>w. fails_timed_out (outcome_of run u w)"
  shows "\<exists>b1 e1 w1 b2 e2 w2.
           run u w = ((b1, Inl e1), w1) \<and>
           run u w1 = ((b2, Inl e2), w2) \<and>
           process_url run u w =
             ([LogProcessing u, Sleep 3000,
               LogAttempt 1 u, RunLighthouseAudit u b1,
               LogAttemptFailed 1 u (ustr ''Lighthouse audit timed out''), Sleep 3000,
               LogAttempt 2 u, RunLighthouseAudit u b2,
               LogAttemptFailed 2 u (ustr ''Lighthouse audit timed out''), LogSkipping u,
               Write (sentinel u)], w2) \<and>
           runs (fst (process_url run u w)) = [b1, b2] \<and>
           invocations (fst (process_url run u w)) = 2"
proof -
  obtain b1 e1 w1 where r1: "run u w = ((b1, Inl e1), w1)"
    using assms failing_run [of run u w] by blast
  obtain b2 e2 w2 where r2: "run u w1 = ((b2, Inl e2), w2)"
    using assms failing_run [of run u w1] by blast
  have m1: "message e1 = ustr ''Lighthouse audit timed out''"
    using assms [rule_format, of w] r1 by (simp add: fails_timed_out_def outcome_of_def)
  have m2: "message e2 = ustr ''Lighthouse audit timed out''"
    using assms [rule_format, of w1] r2 by (simp add: fails_timed_out_def outcome_of_def)
  have p: "process_url run u w =
             ([LogProcessing u, Sleep 3000,
               LogAttempt 1 u, RunLighthouseAudit u b1,
               LogAttemptFailed 1 u (ustr ''Lighthouse audit timed out''), Sleep 3000,
               LogAttempt 2 u, RunLighthouseAudit u b2,
               LogAttemptFailed 2 u (ustr ''Lighthouse audit timed out''), LogSkipping u,
               Write (sentinel u)], w2)"
    using process_url_trace
            [OF second_timeout_gives_up [of run u w b1 e1 w1 b2 e2 w2, OF r1 r2 m2]] m1 m2
    by (simp add: sentinel_def)
  have q: "runs (fst (process_url run u w)) = [b1, b2]"
    unfolding p by simp
  have i: "invocations (fst (process_url run u w)) = 2"
    unfolding p by simp
  show ?thesis
    by (rule exI [of _ b1], rule exI [of _ e1], rule exI [of _ w1],
        rule exI [of _ b2], rule exI [of _ e2], rule exI [of _ w2])
       (use r1 r2 p q i in blast)
qed

theorem always_timeout_two_invocations_witness:
  "(\<forall>k. fails_timed_out (outcome_of (stub (\<lambda>k. Inl timedOut :: thrown + int audit)) example_url k)) \<and>
   process_url (stub (\<lambda>k. Inl timedOut :: thrown + int audit)) example_url 0 =
     ([LogProcessing example_url, Sleep 3000,
       LogAttempt 1 example_url, RunLighthouseAudit example_url [],
       LogAttemptFailed 1 example_url (ustr ''Lighthouse audit timed out''), Sleep 3000,
       LogAttempt 2 example_url, RunLighthouseAudit example_url [],
       LogAttemptFailed 2 example_url (ustr ''Lighthouse audit timed out''),
       LogSkipping example_url,
       Write (sentinel example_url)], 2) \<and>
   invocations (fst (process_url (stub (\<lambda>k. Inl timedOut :: thrown + int audit)) example_url 0)) = 2"
  using always_timeout_two_invocations
          [of "stub (\<lambda>k. Inl timedOut :: thrown + int audit)" example_url 0]
  by (auto simp: outcome_of_def stub_def fails_timed_out_def timedOut_def)

text \<open>
  C4. If every call of the audit runner for a URL fails with a message other than
  \<open>Lighthouse audit timed out\<close>, the runner is called exactly three times for that URL,
  each call in the world the call before it leaves, and each failure is logged with the
  message that call threw. Then the loop gives up, the sentinel row is written, and the
  world is the one the third call leaves; there is no fourth call.
\<close>

theorem other_failures_three_invocations:
  fixes run :: "('w, 'n::zero) runner"
  assumes "\<forall>w. fails_otherwise (outcome_of run u w)"
  shows "\<exists>b1 e1 w1 b2 e2 w2 b3 e3 w3.
           run u w = ((b1, Inl e1), w1) \<and>
           run u w1 = ((b2, Inl e2), w2) \<and>
           run u w2 = ((b3, Inl e3), w3) \<and>
           process_url run u w =
             ([LogProcessing u, Sleep 3000,
               LogAttempt 1 u, RunLighthouseAudit u b1,
               LogAttemptFailed 1 u (message e1), Sleep 3000,
               LogAttempt 2 u, RunLighthouseAudit u b2,
               LogAttemptFailed 2 u (message e2), Sleep 3000,
               LogAttempt 3 u, RunLighthouseAudit u b3,
               LogAttemptFailed 3 u (message e3), LogSkipping u,
               Write (sentinel u)], w3) \<and>
           runs (fst (process_url run u w)) = [b1, b2, b3] \<and>
           invocations (fst (process_url run u w)) = 3"
proof -
  obtain b1 e1 w1 where r1: "run u w = ((b1, Inl e1), w1)"
    using assms failing_run [of run u w] by blast
  obtain b2 e2 w2 where r2: "run u w1 = ((b2, Inl e2), w2)"
    using assms failing_run [of run u w1] by blast
  obtain b3 e3 w3 where r3: "run u w2 = ((b3, Inl e3), w3)"
    using assms failing_run [of run u w2] by blast
  have m2: "message e2 \<noteq> ustr ''Lighthouse audit timed out''"
    using assms [rule_format, of w1] r2 by (simp add: fails_otherwise_def outcome_of_def)
  have p: "process_url run u w =
             ([LogProcessing u, Sleep 3000,
               LogAttempt 1 u, RunLighthouseAudit u b1,
               LogAttemptFailed 1 u (message e1), Sleep 3000,
               LogAttempt 2 u, RunLighthouseAudit u b2,
               LogAttemptFailed 2 u (message e2), Sleep 3000,
               LogAttempt 3 u, RunLighthouseAudit u b3,
               LogAttemptFailed 3 u (message e3), LogSkipping u,
               Write (sentinel u)], w3)"
    using process_url_trace
            [OF three_failures_give_up [of run u w b1 e1 w1 b2 e2 w2 b3 e3 w3, OF r1 r2 m2 r3]]
    by (simp add: sentinel_def)
  have q: "runs (fst (process_url run u w)) = [b1, b2, b3]"
    unfolding p by simp
  have i: "invocations (fst (process_url run u w)) = 3"
    unfolding p by simp
  show ?thesis
    by (rule exI [of _ b1], rule exI [of _ e1], rule exI [of _ w1],
        rule exI [of _ b2], rule exI [of _ e2], rule exI [of _ w2],
        rule exI [of _ b3], rule exI [of _ e3], rule exI [of _ w3])
       (use r1 r2 r3 p q i in blast)
qed

theorem other_failures_three_invocations_witness:
  "(\<forall>k. fails_otherwise (outcome_of (stub (\<lambda>k. Inl refused :: thrown + int audit)) example_url k)) \<and>
   process_url (stub (\<lambda>k. Inl refused :: thrown + int audit)) example_url 0 =
     ([LogProcessing example_url, Sleep 3000,
       LogAttempt 1 example_url, RunLighthouseAudit example_url [],
       LogAttemptFailed 1 example_url (ustr ''net::ERR_CONNECTION_REFUSED''), Sleep 3000,
       LogAttempt 2 example_url, RunLighthouseAudit example_url [],
       LogAttemptFailed 2 example_url (ustr ''net::ERR_CONNECTION_REFUSED''), Sleep 3000,
       LogAttempt 3 example_url, RunLighthouseAudit example_url [],
       LogAttemptFailed 3 example_url (ustr ''net::ERR_CONNECTION_REFUSED''),
       LogSkipping example_url,
       Write (sentinel example_url)], 3) \<and>
   invocations (fst (process_url (stub (\<lambda>k. Inl refused :: thrown + int audit)) example_url 0)) = 3"
  using other_failures_three_invocations
          [of "stub (\<lambda>k. Inl refused :: thrown + int audit)" example_url 0]
  by (auto simp: outcome_of_def stub_def fails_otherwise_def refused_def ustr_def)

text \<open>
  C5. If the runner fails twice with messages other than the timeout message and then
  returns score 87 with a title and a description, the row written for the URL carries
  the score 87 and that title and description; it is not the sentinel row.
\<close>

theorem third_attempt_success_recorded:
  fixes run :: "('w, 'n::semiring_char_0) runner"
  assumes "run u w = ((b1, Inl e1), w1)"
    and "message e1 \<noteq> ustr ''Lighthouse audit timed out''"
    and "run u w1 = ((b2, Inl e2), w2)"
    and "message e2 \<noteq> ustr ''Lighthouse audit timed out''"
    and "run u w2 = ((b3, Inr \<lparr>score = Some 87, metaTitle = t, metaDescription = d\<rparr>), w3)"
  shows "written (fst (process_url run u w)) =
           [\<lparr>score = Some 87, metaTitle = t, metaDescription = d, url = u\<rparr>] \<and>
         \<lparr>score = Some (87::'n), metaTitle = t, metaDescription = d, url = u\<rparr> \<noteq> sentinel u \<and>
         invocations (fst (process_url run u w)) = 3"
  using process_url_trace [OF two_failures_then_success [of run u w b1 e1 w1 b2 e2 w2 b3 _ w3,
            OF assms(1) assms(3) assms(4) assms(5)]]
  by (simp add: sentinel_def)

theorem third_attempt_success_recorded_witness:
  "stub third_time_lucky example_url 0 = (([], Inl refused), 1) \<and>
   message refused \<noteq> ustr ''Lighthouse audit timed out'' \<and>
   stub third_time_lucky example_url 1 = (([], Inl refused), 2) \<and>
   stub third_time_lucky example_url 2 = (([], Inr example_audit), 3) \<and>
   written (fst (process_url (stub third_time_lucky) example_url 0)) =
     [\<lparr>score = Some 87, metaTitle = ustr ''Example Domain'',
       metaDescription = ustr ''No meta description'', url = example_url\<rparr>]"
  using third_attempt_success_recorded
          [of "stub third_time_lucky" example_url 0 "[]" refused 1 "[]" refused 2 "[]"
              "ustr ''Example Domain''" "ustr ''No meta description''" 3]
  by (simp add: stub_def third_time_lucky_def refused_def example_audit_def ustr_def)

text \<open>
  C9. The shortcut at attempt 2 reads the failure of attempt 2 only: whatever the first
  failure was (a timeout or not), a second failure with the message
  \<open>Lighthouse audit timed out\<close> ends the loop after two calls, with the sentinel row.
\<close>

theorem timeout_shortcut_reads_second_failure_only:
  fixes run :: "('w, 'n::zero) runner"
  assumes "run u w = ((b1, Inl e1), w1)"
    and "run u w1 = ((b2, Inl e2), w2)"
    and "message e2 = ustr ''Lighthouse audit timed out''"
  shows "process_url run u w =
           ([LogProcessing u, Sleep 3000,
             LogAttempt 1 u, RunLighthouseAudit u b1,
             LogAttemptFailed 1 u (message e1), Sleep 3000,
             LogAttempt 2 u, RunLighthouseAudit u b2,
             LogAttemptFailed 2 u (ustr ''Lighthouse audit timed out''), LogSkipping u,
             Write (sentinel u)], w2)"
  using process_url_trace
          [OF second_timeout_gives_up [of run u w b1 e1 w1 b2 e2 w2, OF assms(1) assms(2) assms(3)]]
        assms(3)
  by (simp add: sentinel_def)

theorem timeout_shortcut_reads_second_failure_only_witness:
  "stub refused_then_timeout example_url 0 = (([], Inl refused), 1) \<and>
   message refused \<noteq> ustr ''Lighthouse audit timed out'' \<and>
   stub refused_then_timeout example_url 1 = (([], Inl timedOut), 2) \<and>
   message timedOut = ustr ''Lighthouse audit timed out'' \<and>
   process_url (stub refused_then_timeout) example_url 0 =
     ([LogProcessing example_url, Sleep 3000,
       LogAttempt 1 example_url, RunLighthouseAudit example_url [],
       LogAttemptFailed 1 example_url (ustr ''net::ERR_CONNECTION_REFUSED''), Sleep 3000,
       LogAttempt 2 example_url, RunLighthouseAudit example_url [],
       LogAttemptFailed 2 example_url (ustr ''Lighthouse audit timed out''),
       LogSkipping example_url,
       Write (sentinel example_url :: int result_row)], 2)"
  using timeout_shortcut_reads_second_failure_only
          [of "stub refused_then_timeout" example_url 0 "[]" refused 1 "[]" timedOut 2]
  by (simp add: stub_def refused_then_timeout_def refused_def timedOut_def ustr_def)

text \<open>
  C10. When the retry loop of a URL gives up, the row written has \<open>metaTitle\<close> and
  \<open>metaDescription\<close> exactly \<open>N/A\<close> (and score 0): failed attempts never assign the
  variables, which the loop over the URLs resets to the empty string, so the \<open>||\<close> of
  lines 57 and 58 always takes its default.
\<close>

theorem exhausted_row_metadata_not_available:
  fixes run :: "('w, 'n::zero) runner"
  shows "(gave_up u (fst (process_url run u w)) \<longrightarrow>
            written (fst (process_url run u w)) =
              [\<lparr>score = Some 0, metaTitle = ustr ''N/A'', metaDescription = ustr ''N/A'',
                url = u\<rparr>]) \<and>
         (n \<le> 3 \<and> gave_up u (fst (fst (retry_loop run u n vars w))) \<longrightarrow>
            metaTitle (snd (fst (retry_loop run u n vars w))) =
              js_or (metaTitle vars) (ustr ''N/A'') \<and>
            metaDescription (snd (fst (retry_loop run u n vars w))) =
              js_or (metaDescription vars) (ustr ''N/A''))"
proof -
  let ?v0 = "\<lparr>score = None, metaTitle = [], metaDescription = []\<rparr> :: 'n audit"
  have first: "written (fst (process_url run u w)) =
              [\<lparr>score = Some 0, metaTitle = ustr ''N/A'', metaDescription = ustr ''N/A'',
                url = u\<rparr>]"
    if g: "gave_up u (fst (process_url run u w))"
  proof -
    obtain evs vars' w' where loop: "retry_loop run u 1 ?v0 w = ((evs, vars'), w')"
      by (metis prod.exhaust)
    have one: "(1::nat) \<le> maxRetries" by (simp add: maxRetries_def)
    have trace: "fst (process_url run u w) =
        LogProcessing u # Sleep 3000 # evs @
        [Write \<lparr>score = score vars', metaTitle = metaTitle vars',
                metaDescription = metaDescription vars', url = u\<rparr>]"
      using process_url_trace [OF loop] by simp
    have "LogSkipping u \<in> set evs"
      using g unfolding trace gave_up_def by simp
    then have "vars' = \<lparr>score = Some 0, metaTitle = ustr ''N/A'', metaDescription = ustr ''N/A''\<rparr>"
      using retry_loop_exhausted_vars [OF one, of u run ?v0 w] loop by simp
    moreover have "written evs = []"
      using retry_loop_quiet [OF one, of run u ?v0 w] loop by simp
    ultimately show ?thesis unfolding trace by (simp add: written_append)
  qed
  have second: "metaTitle (snd (fst (retry_loop run u n vars w))) =
              js_or (metaTitle vars) (ustr ''N/A'') \<and>
            metaDescription (snd (fst (retry_loop run u n vars w))) =
              js_or (metaDescription vars) (ustr ''N/A'')"
    if "n \<le> 3" "gave_up u (fst (fst (retry_loop run u n vars w)))"
    using that retry_loop_exhausted_vars [of n u run vars w]
    by (simp add: gave_up_def maxRetries_def)
  from first second show ?thesis by blast
qed

theorem exhausted_row_metadata_not_available_witness:
  "gave_up example_url (fst (process_url (runLighthouseAudit times_out_after_title) example_url 0)) \<and>
   written (fst (process_url (runLighthouseAudit times_out_after_title) example_url 0)) =
     [\<lparr>score = Some 0, metaTitle = ustr ''N/A'', metaDescription = ustr ''N/A'',
       url = example_url\<rparr>]"
  using exhausted_row_metadata_not_available
          [of example_url "runLighthouseAudit times_out_after_title" 0]
  by (simp add: gave_up_def run_simps runLighthouseAudit_def try_block_def
        times_out_after_title_def healthy_def)

section \<open>The run over all URLs\<close>

text \<open>
  C7. The run writes exactly one row per loaded URL, in the order of the URLs: the trace
  is one segment per URL, in order, and each segment starts its URL, runs the retry loop
  to its terminal log line, and then writes the one row of that URL as its last act,
  before the segment of the next URL begins. In the whole script the URLs are those the
  loader yields.
\<close>

theorem one_row_per_url_in_order:
  fixes run :: "('w, 'n::zero) runner"
  shows "map url (written (fst (on_end run urls w))) = urls \<and>
         (\<exists>segs. fst (on_end run urls w) =
                   [LogCsvProcessed, CreateOutput] @ concat segs @ [EndOutput, LogCompleted] \<and>
                 list_all2 url_segment urls segs) \<and>
         map url (written (fst (main run rows w))) = load_urls rows"
proof -
  obtain segs where segs: "fst (for_urls run urls w) = concat segs"
      "list_all2 (\<lambda>u seg. recorded_segment u seg \<and> map url (written seg) = [u]) urls segs"
    using for_urls_segments [of run urls w] by blast
  have a: "list_all2 (\<lambda>u seg. map url (written seg) = [u]) urls segs"
    using segs(2) by (rule list_all2_mono) simp
  have b: "list_all2 url_segment urls segs"
    using segs(2) by (rule list_all2_mono) (simp add: recorded_segment_def)
  have "map url (written (fst (on_end run urls w))) = urls"
    using written_concat_segments [OF a] by (simp add: on_end_trace segs(1) written_append)
  moreover have "fst (on_end run urls w) =
                   [LogCsvProcessed, CreateOutput] @ concat segs @ [EndOutput, LogCompleted]"
    by (simp add: on_end_trace segs(1))
  moreover have "map url (written (fst (main run rows w))) = load_urls rows"
    using on_end_rows [of run "load_urls rows" w] by (simp add: main_def)
  ultimately show ?thesis using b by blast
qed

theorem one_row_per_url_in_order_witness:
  "written (fst (on_end (stub three_refusals_then_ok) [example_url, other_url] 0)) =
     [sentinel example_url,
      \<lparr>score = Some 87, metaTitle = ustr ''Example Domain'',
       metaDescription = ustr ''No meta description'', url = other_url\<rparr>] \<and>
   map url (written (fst (on_end (stub three_refusals_then_ok) [example_url, other_url] 0))) =
     [example_url, other_url]"
  using one_row_per_url_in_order [of "stub three_refusals_then_ok" "[example_url, other_url]" 0]
  by (simp add: run_simps three_refusals_then_ok_def refused_def timedOut_def example_audit_def)



section \<open>Closing the browser\<close>

text \<open>
  C3, as the code has it. In every call of the audit runner that acquired the browser
  and its page, the browser is closed exactly once, as the last act of the call, whether
  the attempt succeeded, failed or timed out. A URL is given one to three attempts, each
  with a browser of its own, so the browser is closed once per attempt: one to three
  times per URL.
\<close>

theorem teardown_once_per_attempt:
  fixes web :: "nat \<Rightarrow> ustring \<Rightarrow> ('n::{zero,times,numeral}) session"
  assumes "\<forall>k. acquired (web k u)"
  shows "(\<forall>k. count_list (fst (fst (runLighthouseAudit web u k))) Close = 1 \<and>
              last (fst (fst (runLighthouseAudit web u k))) = Close) \<and>
         teardowns (fst (process_url (runLighthouseAudit web) u k)) =
           invocations (fst (process_url (runLighthouseAudit web) u k)) \<and>
         1 \<le> invocations (fst (process_url (runLighthouseAudit web) u k)) \<and>
         invocations (fst (process_url (runLighthouseAudit web) u k)) \<le> 3"
proof -
  let ?run = "runLighthouseAudit web"
  let ?v0 = "\<lparr>score = None, metaTitle = [], metaDescription = []\<rparr> :: 'n audit"
  have once: "count_list (fst (fst (?run u k))) Close = 1 \<and> last (fst (fst (?run u k))) = Close"
    for k
    using assms runner_closes_once [of web k u] by simp
  obtain evs vars k' where loop: "retry_loop ?run u 1 ?v0 k = ((evs, vars), k')"
    by (metis prod.exhaust)
  have one: "(1::nat) \<le> maxRetries" by (simp add: maxRetries_def)
  have trace: "fst (process_url ?run u k) =
      LogProcessing u # Sleep 3000 # evs @
      [Write \<lparr>score = score vars, metaTitle = metaTitle vars,
              metaDescription = metaDescription vars, url = u\<rparr>]"
    using process_url_trace [OF loop] by simp
  have t: "teardowns evs = invocations evs"
    using retry_loop_teardowns [OF one, of ?run u ?v0 k] once loop by simp
  have i: "1 \<le> invocations evs \<and> invocations evs \<le> 3"
    using retry_loop_invocations [OF one, of ?run u ?v0 k] loop by (simp add: maxRetries_def)
  show ?thesis
    unfolding trace using once t i by (simp add: teardowns_append invocations_append)
qed

theorem teardown_once_per_attempt_witness:
  "(\<forall>k. acquired (flaky_web k example_url)) \<and>
   teardowns (fst (process_url (runLighthouseAudit flaky_web) example_url 0)) =
     invocations (fst (process_url (runLighthouseAudit flaky_web) example_url 0)) \<and>
   count_list (fst (fst (runLighthouseAudit flaky_web example_url 0))) Close = 1"
  using teardown_once_per_attempt [of flaky_web example_url 0]
  by (simp add: acquired_def flaky_web_def healthy_def)

text \<open>
  C3, as stated, fails: for a site that refuses the first connection and answers the
  second, the one URL has two attempts and the browser is closed twice.
\<close>

theorem teardown_twice_for_one_url:
  "invocations (fst (process_url (runLighthouseAudit flaky_web) example_url 0)) = 2 \<and>
   teardowns (fst (process_url (runLighthouseAudit flaky_web) example_url 0)) = 2 \<and>
   teardowns (fst (process_url (runLighthouseAudit flaky_web) example_url 0)) \<noteq> 1"
  by (simp add: run_simps runLighthouseAudit_def try_block_def flaky_web_def healthy_def
        refused_def)

section \<open>The loader\<close>

text \<open>
  C6. The loader yields, in row order, nothing for a row whose \<open>url\<close> is missing or
  empty, and for every other row the trimmed value, with \<open>http://\<close> put in front
  unless the trimmed value starts with \<open>http://\<close> or \<open>https://\<close> in any letter case,
  in which case it is left as it is. Trimming removes white space at both ends and
  nothing else. The rows \<open>example.com\<close>, empty, \<open>https://test.org\<close> yield
  \<open>http://example.com\<close>, \<open>https://test.org\<close>.
\<close>

theorem loader_skips_trims_and_adds_scheme:
  "load_urls rows = concat (map loaded_of_row rows) \<and>
   (\<forall>r. loaded_of_row r =
      (case r (ustr ''url'') of
         None \<Rightarrow> []
       | Some v \<Rightarrow>
           if v = [] then []
           else if hasScheme (trim v) then [trim v]
           else [ustr ''http://'' @ trim v])) \<and>
   (\<forall>v. (\<exists>l r. v = l @ trim v @ r \<and> list_all isWhiteSpace l \<and> list_all isWhiteSpace r) \<and>
        (trim v \<noteq> [] \<longrightarrow>
           \<not> isWhiteSpace (hd (trim v)) \<and> \<not> isWhiteSpace (last (trim v)))) \<and>
   load_urls scenario_rows = [ustr ''http://example.com'', ustr ''https://test.org'']"
proof -
  have a: "load_urls rows = concat (map loaded_of_row rows)" for rows
    by (simp add: load_urls_def foldl_on_data)
  have b: "loaded_of_row r =
      (case r (ustr ''url'') of
         None \<Rightarrow> []
       | Some v \<Rightarrow>
           if v = [] then []
           else if hasScheme (trim v) then [trim v]
           else [ustr ''http://'' @ trim v])" for r
    by (simp add: loaded_of_row_def normalized_def split: option.splits)
  have c: "load_urls scenario_rows = [ustr ''http://example.com'', ustr ''https://test.org'']"
    unfolding a
    by (simp add: scenario_rows_def loaded_of_row_def normalized_def hasScheme_def
          startsWithIgnoreCase_def trim_def isWhiteSpace_def toLowerAscii_def ustr_def)
  have d: "(\<exists>l r. v = l @ trim v @ r \<and> list_all isWhiteSpace l \<and> list_all isWhiteSpace r) \<and>
        (trim v \<noteq> [] \<longrightarrow>
           \<not> isWhiteSpace (hd (trim v)) \<and> \<not> isWhiteSpace (last (trim v)))" for v
    using trim_middle [of v] trim_ends [of v] by blast
  from a b c d show ?thesis by blast
qed

theorem loader_skips_trims_and_adds_scheme_witness:
  "load_urls messy_rows = [ustr ''http://Example.com'', ustr ''HTTPS://Test.org'']"
  using loader_skips_trims_and_adds_scheme [of messy_rows]
  by (simp add: messy_rows_def loaded_of_row_def normalized_def hasScheme_def
        startsWithIgnoreCase_def trim_def isWhiteSpace_def toLowerAscii_def ustr_def)

end
